theory Spec2Isabelle
  imports Main "HOL-Library.Multiset"
begin

section \<open>Provisioner command helpers of \<open>command/ca/provisioner/provisioner.go\<close>\<close>

text \<open>
  The development embeds three functions of the Go file: \<open>removeElements\<close>,
  \<open>newCRUDClient\<close> and \<open>readNebulaRoots\<close>. Go values of type \<open>error\<close> become
  a datatype, a pair \<open>(value, error)\<close> returned by a function becomes a sum with the error
  on the left, and a slice of strings becomes a slice header over its backing array, so that
  the in-place writes of \<open>removeElements\<close> stay visible.
\<close>

subsection \<open>Errors\<close>

text \<open>
  \<open>ErrorString m\<close> is an error made by \<open>errors.New\<close> or \<open>errors.Errorf\<close> with the
  finished message \<open>m\<close>. \<open>Wrapped m e\<close> is an error whose message is \<open>m\<close>, a colon and
  the message of \<open>e\<close>, and whose \<open>Unwrap\<close> is \<open>e\<close>: what \<open>fmt.Errorf("m: %w", e)\<close>,
  \<open>errors.Wrap(e, m)\<close> and \<open>errors.Wrapf\<close> build. \<open>FileError e path\<close> stands for the
  value of the library call \<open>errs.FileError(e, path)\<close>, which is not part of this repository.
\<close>

datatype error =
    ErrorString string
  | Wrapped string error
  | FileError error string

fun Unwrap :: "error \<Rightarrow> error option" where
  "Unwrap (ErrorString m) = None"
| "Unwrap (Wrapped m e) = Some e"
| "Unwrap (FileError e p) = Some e"

text \<open>\<open>errors.Is\<close>: walk the chain of wrapped errors looking for the target; \<open>nil\<close> is never it.\<close>

fun chain_Is :: "error \<Rightarrow> error \<Rightarrow> bool" where
  "chain_Is (ErrorString m) target = (ErrorString m = target)"
| "chain_Is (Wrapped m e) target = (Wrapped m e = target \<or> chain_Is e target)"
| "chain_Is (FileError e p) target = (FileError e p = target \<or> chain_Is e target)"

definition errors_Is :: "error option \<Rightarrow> error \<Rightarrow> bool" where
  "errors_Is err target = (case err of None \<Rightarrow> False | Some e \<Rightarrow> chain_Is e target)"

definition ErrNotExist :: error where
  "ErrNotExist = ErrorString ''file does not exist''"

subsection \<open>String slices and \<open>removeElements\<close>\<close>

text \<open>
  A Go slice \<open>[]string\<close> is a window on a backing array. \<open>backing\<close> holds the cells of the
  array from the start of the slice up to its capacity, \<open>len\<close> is the length of the slice.
  The elements of the slice are the first \<open>len\<close> cells.
\<close>

record string_slice =
  backing :: "string list"
  len :: nat

definition wf_slice :: "string_slice \<Rightarrow> bool" where
  "wf_slice s = (len s \<le> length (backing s))"

definition elems :: "string_slice \<Rightarrow> string list" where
  "elems s = take (len s) (backing s)"

definition slice_of :: "string list \<Rightarrow> string_slice" where
  "slice_of xs = \<lparr>backing = xs, len = length xs\<rparr>"

text \<open>
  The inner loop \<open>for i, elem := range list\<close> of \<open>removeElements\<close>, from index \<open>i\<close> on.
  At the first cell equal to \<open>rem\<close> the last element is copied over it, the slice is cut
  by one and the loop is left.
\<close>

function remove_scan :: "string_slice \<Rightarrow> string \<Rightarrow> nat \<Rightarrow> string_slice" where
  "remove_scan list rem i =
     (if i < len list then
        (if backing list ! i = rem
         then list\<lparr>backing := (backing list)[i := backing list ! (len list - 1)],
                   len := len list - 1\<rparr>
         else remove_scan list rem (i + 1))
      else list)"
  by pat_completeness auto
termination
  by (relation "measure (\<lambda>(list, rem, i). len list - i)") simp_all

declare remove_scan.simps [simp del]

text \<open>The outer loop \<open>for _, rem := range rems\<close>.\<close>

fun remove_each :: "string_slice \<Rightarrow> string list \<Rightarrow> string_slice" where
  "remove_each list [] = list"
| "remove_each list (rem # rems) = remove_each (remove_scan list rem 0) rems"

definition removeElements :: "string_slice \<Rightarrow> string list \<Rightarrow> string_slice" where
  "removeElements list rems = (if len list = 0 then list else remove_each list rems)"

text \<open>
  The number of entries of \<open>rems\<close> whose scan finds a match, counted along the run of the
  outer loop: an entry matches when it occurs in the slice as it stands at that point.
\<close>

fun matched_removals :: "string_slice \<Rightarrow> string list \<Rightarrow> nat" where
  "matched_removals list [] = 0"
| "matched_removals list (rem # rems) =
     (if rem \<in> set (elems list) then 1 else 0) + matched_removals (remove_scan list rem 0) rems"

text \<open>
  One removal on a plain list, as the text of the contract describes it: the occurrence with
  the least index is overwritten by the last element and the list loses its last cell.
\<close>

fun first_index :: "string list \<Rightarrow> string \<Rightarrow> nat option" where
  "first_index [] r = None"
| "first_index (x # xs) r =
     (if x = r then Some 0 else map_option Suc (first_index xs r))"

definition remove_earliest :: "string \<Rightarrow> string list \<Rightarrow> string list" where
  "remove_earliest r xs =
     (case first_index xs r of
        None \<Rightarrow> xs
      | Some i \<Rightarrow> butlast (xs[i := last xs]))"

subsection \<open>The configuration and the two provisioner stores\<close>

text \<open>
  Of the authority configuration \<open>newCRUDClient\<close> reads two fields only:
  \<open>config.AuthorityConfig.EnableAdmin\<close> and the length of
  \<open>config.AuthorityConfig.Provisioners\<close>. A provisioner of the static list is kept by
  its name.
\<close>

record AuthConfig =
  EnableAdmin :: bool
  Provisioners :: "string list"

record Config =
  AuthorityConfig :: AuthConfig

datatype cli_Context = CliContext "(string \<times> string) list"

datatype go_Context = Background

text \<open>
  The interface \<open>crudClient\<close> has two implementations: the client of the remote
  administration API, made by \<open>cautils.NewAdminClient\<close>, and the client that edits the
  configuration file, made by \<open>newAdminAPIDisabledClient\<close>. Both constructors live outside
  the file, so the values they build stay abstract (\<open>'a\<close> and \<open>'f\<close>).
\<close>

datatype ('a, 'f) crudClient =
    AdminClient 'a
  | AdminAPIDisabledClient 'f

text \<open>
  The collaborators of \<open>newCRUDClient\<close>: \<open>os.Stat\<close> (only its error is used),
  \<open>config.LoadConfiguration\<close> and the two constructors. Each is a parameter of the model.
\<close>

record ('a, 'f) crud_env =
  Stat :: "string \<Rightarrow> error option"
  LoadConfiguration :: "string \<Rightarrow> error + Config"
  NewAdminClient :: "cli_Context \<Rightarrow> error + 'a"
  newAdminAPIDisabledClient :: "go_Context \<Rightarrow> Config \<Rightarrow> string \<Rightarrow> error + 'f"

text \<open>The calls made to the collaborators, in the order they happen.\<close>

datatype call =
    CallStat string
  | CallLoadConfiguration string
  | CallNewAdminClient cli_Context
  | CallNewAdminAPIDisabledClient go_Context Config string

definition enableAdmin_conflict :: error where
  "enableAdmin_conflict = ErrorString
     ''when 'enableAdmin' attribute set to 'true', provisioners list in ca.json must be empty''"

text \<open>
  \<open>newCRUDClient\<close> returns the pair \<open>(crudClient, error)\<close> as a sum, together with the
  calls it made. The \<open>switch\<close> tests \<open>errors.Is(err, os.ErrNotExist)\<close> first, then
  \<open>err == nil\<close>, and falls to \<open>default\<close> otherwise.
\<close>

definition newCRUDClient ::
  "('a, 'f) crud_env \<Rightarrow> cli_Context \<Rightarrow> string \<Rightarrow> (error + ('a, 'f) crudClient) \<times> call list" where
  "newCRUDClient env cliCtx configFile =
     (let err = Stat env configFile in
      if errors_Is err ErrNotExist then
        (map_sum id AdminClient (NewAdminClient env cliCtx),
         [CallStat configFile, CallNewAdminClient cliCtx])
      else
        (case err of
           None \<Rightarrow>
             (case LoadConfiguration env configFile of
                Inl err' \<Rightarrow>
                  (Inl (Wrapped ''error loading configuration'' err'),
                   [CallStat configFile, CallLoadConfiguration configFile])
              | Inr config \<Rightarrow>
                  if EnableAdmin (AuthorityConfig config) then
                    if length (Provisioners (AuthorityConfig config)) > 0 then
                      (Inl enableAdmin_conflict,
                       [CallStat configFile, CallLoadConfiguration configFile])
                    else
                      (map_sum id AdminClient (NewAdminClient env cliCtx),
                       [CallStat configFile, CallLoadConfiguration configFile,
                        CallNewAdminClient cliCtx])
                  else
                    (map_sum id AdminAPIDisabledClient
                       (newAdminAPIDisabledClient env Background config configFile),
                     [CallStat configFile, CallLoadConfiguration configFile,
                      CallNewAdminAPIDisabledClient Background config configFile]))
         | Some e \<Rightarrow> (Inl (FileError e configFile), [CallStat configFile])))"

definition touches_admin :: "call list \<Rightarrow> bool" where
  "touches_admin calls = (\<exists>c \<in> set calls. case c of CallNewAdminClient x \<Rightarrow> True | _ \<Rightarrow> False)"

text \<open>An environment with fixed answers of \<open>os.Stat\<close> and \<open>LoadConfiguration\<close>, to run the model.\<close>

definition example_crud_env ::
  "error option \<Rightarrow> error + Config \<Rightarrow> (cli_Context, Config \<times> string) crud_env" where
  "example_crud_env st ld =
     \<lparr>Stat = (\<lambda>p. st), LoadConfiguration = (\<lambda>p. ld),
      NewAdminClient = (\<lambda>c. Inr c),
      newAdminAPIDisabledClient = (\<lambda>ctx cfg p. Inr (cfg, p))\<rparr>"

definition example_config :: "bool \<Rightarrow> string list \<Rightarrow> Config" where
  "example_config admin provs =
     \<lparr>AuthorityConfig = \<lparr>EnableAdmin = admin, Provisioners = provs\<rparr>\<rparr>"

subsection \<open>Nebula certificates and \<open>readNebulaRoots\<close>\<close>

text \<open>
  Of a Nebula certificate the function reads \<open>crt.Details.IsCA\<close>. The file contents and
  the PEM blobs are byte strings.
\<close>

record NebulaCertificateDetails =
  Name :: string
  IsCA :: bool

record NebulaCertificate =
  Details :: NebulaCertificateDetails

text \<open>
  The collaborators: \<open>utils.ReadFile\<close>, the decoder
  \<open>nebula.UnmarshalNebulaCertificateFromPEM\<close>, which returns the certificate at the front of
  the buffer and the rest of the buffer, and the method \<open>MarshalToPEM\<close>.
\<close>

record nebula_env =
  ReadFile :: "string \<Rightarrow> error + string"
  UnmarshalNebulaCertificateFromPEM :: "string \<Rightarrow> error + (NebulaCertificate \<times> string)"
  MarshalToPEM :: "NebulaCertificate \<Rightarrow> error + string"

text \<open>
  The loop \<open>for len(b) > 0\<close>. Nothing in the function makes the buffer shrink, so the loop
  is a partial function: \<open>None\<close> means that it never ends.
\<close>

partial_function (option) read_loop ::
  "nebula_env \<Rightarrow> string \<Rightarrow> string \<Rightarrow> NebulaCertificate list
     \<Rightarrow> (error + NebulaCertificate list) option" where
  "read_loop env rootFile b certs =
     (if length b > 0 then
        (case UnmarshalNebulaCertificateFromPEM env b of
           Inl err \<Rightarrow> Some (Inl (Wrapped (''error reading '' @ rootFile) err))
         | Inr (crt, b') \<Rightarrow>
             read_loop env rootFile b'
               (if IsCA (Details crt) then certs @ [crt] else certs))
      else Some (Inr certs))"

text \<open>
  The loop \<open>for i, crt := range certs\<close> that fills \<open>rootBytes\<close>, from index \<open>i\<close> on.
\<close>

function marshal_loop ::
  "nebula_env \<Rightarrow> NebulaCertificate list \<Rightarrow> nat \<Rightarrow> string list \<Rightarrow> error + string list" where
  "marshal_loop env certs i rootBytes =
     (if i < length certs then
        (case MarshalToPEM env (certs ! i) of
           Inl err \<Rightarrow> Inl (Wrapped ''error marshaling certificate'' err)
         | Inr b \<Rightarrow> marshal_loop env certs (i + 1) (rootBytes[i := b]))
      else Inr rootBytes)"
  by pat_completeness auto
termination
  by (relation "measure (\<lambda>(env, certs, i, rootBytes). length certs - i)") simp_all

declare marshal_loop.simps [simp del]

definition no_CA_error :: "string \<Rightarrow> error" where
  "no_CA_error rootFile =
     ErrorString (''error reading '' @ rootFile @ '': no CA certificates found'')"

definition readNebulaRoots :: "nebula_env \<Rightarrow> string \<Rightarrow> (error + string list) option" where
  "readNebulaRoots env rootFile =
     (case ReadFile env rootFile of
        Inl err \<Rightarrow> Some (Inl err)
      | Inr b \<Rightarrow>
          (case read_loop env rootFile b [] of
             None \<Rightarrow> None
           | Some (Inl err) \<Rightarrow> Some (Inl err)
           | Some (Inr certs) \<Rightarrow>
               if length certs = 0 then Some (Inl (no_CA_error rootFile))
               else Some (marshal_loop env certs 0 (replicate (length certs) []))))"

text \<open>
  Two ways a buffer can go through the decoder. \<open>decodes_to env b crts\<close>: the buffer
  decodes completely, block after block, into the certificates \<open>crts\<close>.
  \<open>decode_fails_after env b crts err\<close>: the blocks at the front decode into \<open>crts\<close>, and on
  the buffer that is left, which is not empty, the decoder fails with the error \<open>err\<close>.
\<close>

fun decodes_to :: "nebula_env \<Rightarrow> string \<Rightarrow> NebulaCertificate list \<Rightarrow> bool" where
  "decodes_to env b [] = (b = [])"
| "decodes_to env b (crt # crts) =
     (b \<noteq> [] \<and>
      (case UnmarshalNebulaCertificateFromPEM env b of
         Inl err \<Rightarrow> False
       | Inr (c, b') \<Rightarrow> c = crt \<and> decodes_to env b' crts))"

fun decode_fails_after ::
  "nebula_env \<Rightarrow> string \<Rightarrow> NebulaCertificate list \<Rightarrow> error \<Rightarrow> bool" where
  "decode_fails_after env b [] err =
     (b \<noteq> [] \<and> UnmarshalNebulaCertificateFromPEM env b = Inl err)"
| "decode_fails_after env b (crt # crts) err =
     (b \<noteq> [] \<and>
      (case UnmarshalNebulaCertificateFromPEM env b of
         Inl e \<Rightarrow> False
       | Inr (c, b') \<Rightarrow> c = crt \<and> decode_fails_after env b' crts err))"

definition is_ca :: "NebulaCertificate \<Rightarrow> bool" where
  "is_ca crt = IsCA (Details crt)"

text \<open>The re-encoding of a list of certificates, first failure wins, by recursion on the list.\<close>

fun encode_all :: "nebula_env \<Rightarrow> NebulaCertificate list \<Rightarrow> error + string list" where
  "encode_all env [] = Inr []"
| "encode_all env (crt # crts) =
     (case MarshalToPEM env crt of
        Inl err \<Rightarrow> Inl (Wrapped ''error marshaling certificate'' err)
      | Inr b \<Rightarrow> (case encode_all env crts of Inl e \<Rightarrow> Inl e | Inr bs \<Rightarrow> Inr (b # bs)))"

text \<open>
  A small codec to run the model: a block is two characters, \<open>C\<close> or \<open>L\<close> (authority or
  leaf) and a one-letter name. The name \<open>!\<close> decodes but cannot be encoded again.
\<close>

definition example_cert :: "char \<Rightarrow> bool \<Rightarrow> NebulaCertificate" where
  "example_cert n ca = \<lparr>Details = \<lparr>Name = [n], IsCA = ca\<rparr>\<rparr>"

definition bad_block :: error where
  "bad_block = ErrorString ''input did not contain a valid PEM encoded block''"

fun example_Unmarshal :: "string \<Rightarrow> error + (NebulaCertificate \<times> string)" where
  "example_Unmarshal (t # n # rest) =
     (if t = CHR ''C'' then Inr (example_cert n True, rest)
      else if t = CHR ''L'' then Inr (example_cert n False, rest)
      else Inl bad_block)"
| "example_Unmarshal b = Inl bad_block"

definition example_Marshal :: "NebulaCertificate \<Rightarrow> error + string" where
  "example_Marshal crt =
     (if Name (Details crt) = ''!'' then Inl (ErrorString ''cannot marshal'')
      else Inr ((if IsCA (Details crt) then CHR ''C'' else CHR ''L'') # Name (Details crt)))"

definition example_nebula_env :: "string \<Rightarrow> nebula_env" where
  "example_nebula_env contents =
     \<lparr>ReadFile = (\<lambda>p. Inr contents),
      UnmarshalNebulaCertificateFromPEM = example_Unmarshal,
      MarshalToPEM = example_Marshal\<rparr>"

section \<open>The error chain\<close>

text \<open>\<open>chain_Is\<close> is the loop of \<open>errors.Is\<close>: compare, unwrap, repeat.\<close>

lemma chain_Is_Unwrap:
  "chain_Is e target \<longleftrightarrow>
     e = target \<or> (case Unwrap e of None \<Rightarrow> False | Some e' \<Rightarrow> chain_Is e' target)"
  by (cases e) auto

section \<open>Properties of \<open>removeElements\<close>\<close>

subsection \<open>The earliest matching index\<close>

lemma first_index_None: "first_index xs r = None \<longleftrightarrow> r \<notin> set xs"
  by (induction xs) auto

lemma first_index_Some:
  "first_index xs r = Some i \<Longrightarrow> i < length xs \<and> xs ! i = r \<and> (\<forall>j<i. xs ! j \<noteq> r)"
proof (induction xs arbitrary: i)
  case Nil
  then show ?case by simp
next
  case (Cons x xs)
  show ?case
  proof (cases "x = r")
    case True
    with Cons.prems show ?thesis by simp
  next
    case False
    with Cons.prems obtain k where k: "first_index xs r = Some k" "i = Suc k"
      by auto
    from Cons.IH [OF k(1)] have IH: "k < length xs" "xs ! k = r" "\<forall>j<k. xs ! j \<noteq> r"
      by simp_all
    show ?thesis
    proof (intro conjI allI impI)
      show "i < length (x # xs)" using IH(1) k(2) by simp
      show "(x # xs) ! i = r" using IH(2) k(2) by simp
      fix j assume "j < i"
      then show "(x # xs) ! j \<noteq> r"
        using False IH(3) k(2) by (cases j) auto
    qed
  qed
qed

lemma first_index_least:
  "i < length xs \<Longrightarrow> xs ! i = r \<Longrightarrow> \<forall>j<i. xs ! j \<noteq> r \<Longrightarrow> first_index xs r = Some i"
proof (induction xs arbitrary: i)
  case Nil
  then show ?case by simp
next
  case (Cons x xs)
  show ?case
  proof (cases i)
    case 0
    with Cons.prems show ?thesis by simp
  next
    case (Suc k)
    from Cons.prems(3) Suc have "x \<noteq> r" by auto
    moreover have "first_index xs r = Some k"
    proof (rule Cons.IH)
      show "k < length xs" using Cons.prems(1) Suc by simp
      show "xs ! k = r" using Cons.prems(2) Suc by simp
      show "\<forall>j<k. xs ! j \<noteq> r"
      proof (intro allI impI)
        fix j assume "j < k"
        then have "Suc j < i" using Suc by simp
        with Cons.prems(3) have "(x # xs) ! Suc j \<noteq> r" by blast
        then show "xs ! j \<noteq> r" by simp
      qed
    qed
    ultimately show ?thesis using Suc by simp
  qed
qed

lemma wf_remove_scan: "wf_slice s \<Longrightarrow> wf_slice (remove_scan s r i)"
proof (induction s r i rule: remove_scan.induct)
  case (1 list rem i)
  then show ?case
    by (subst remove_scan.simps) (auto simp: wf_slice_def)
qed

text \<open>The scan from \<open>i\<close> when no cell before \<open>i\<close> matches.\<close>

lemma elems_remove_scan_from:
  "wf_slice s \<Longrightarrow> i \<le> len s \<Longrightarrow> \<forall>j<i. elems s ! j \<noteq> r \<Longrightarrow>
   elems (remove_scan s r i) = remove_earliest r (elems s)"
proof (induction s r i rule: remove_scan.induct)
  case (1 list rem i)
  have n: "length (elems list) = len list"
    using "1.prems"(1) by (simp add: elems_def wf_slice_def)
  show ?case
  proof (cases "i < len list")
    case False
    with "1.prems"(2) have "i = len list" by simp
    with "1.prems"(3) n have "rem \<notin> set (elems list)"
      by (auto simp: in_set_conv_nth)
    then have "remove_earliest rem (elems list) = elems list"
      by (simp add: remove_earliest_def first_index_None [THEN iffD2])
    moreover have "remove_scan list rem i = list"
      using False by (subst remove_scan.simps) simp
    ultimately show ?thesis by simp
  next
    case True
    then have bi: "elems list ! i = backing list ! i"
      by (simp add: elems_def)
    show ?thesis
    proof (cases "backing list ! i = rem")
      case hit: True
      have fi: "first_index (elems list) rem = Some i"
        using True n bi hit "1.prems"(3) by (intro first_index_least) auto
      have ne: "elems list \<noteq> []"
        using True n by auto
      have "last (elems list) = elems list ! (len list - 1)"
        using ne n by (simp add: last_conv_nth)
      also have "\<dots> = backing list ! (len list - 1)"
        using True by (simp add: elems_def)
      finally have lastE: "last (elems list) = backing list ! (len list - 1)" .
      have "remove_scan list rem i =
            list\<lparr>backing := (backing list)[i := backing list ! (len list - 1)],
                 len := len list - 1\<rparr>"
        using True hit by (subst remove_scan.simps) simp
      then have "elems (remove_scan list rem i) =
                 take (len list - 1) ((backing list)[i := backing list ! (len list - 1)])"
        by (simp add: elems_def)
      also have "\<dots> = butlast (take (len list) ((backing list)[i := backing list ! (len list - 1)]))"
        using "1.prems"(1) by (simp add: butlast_take wf_slice_def)
      also have "\<dots> = butlast ((elems list)[i := last (elems list)])"
        using True by (simp add: lastE elems_def [symmetric] take_update_swap)
      finally show ?thesis
        by (simp add: remove_earliest_def fi)
    next
      case miss: False
      have "remove_scan list rem i = remove_scan list rem (i + 1)"
        using True miss by (subst remove_scan.simps) simp
      moreover have "elems (remove_scan list rem (i + 1)) = remove_earliest rem (elems list)"
      proof (rule "1.IH" [OF True miss "1.prems"(1)])
        show "i + 1 \<le> len list" using True by simp
        show "\<forall>j<i + 1. elems list ! j \<noteq> rem"
          using "1.prems"(3) miss bi by (auto simp: less_Suc_eq)
      qed
      ultimately show ?thesis by simp
    qed
  qed
qed

lemma elems_remove_scan:
  "wf_slice s \<Longrightarrow> elems (remove_scan s r 0) = remove_earliest r (elems s)"
  by (rule elems_remove_scan_from) simp_all

lemma elems_remove_each:
  "wf_slice s \<Longrightarrow> elems (remove_each s rems) = fold remove_earliest rems (elems s)"
  by (induction rems arbitrary: s) (simp_all add: wf_remove_scan elems_remove_scan)

lemma remove_earliest_Nil: "remove_earliest r [] = []"
  by (simp add: remove_earliest_def)

lemma fold_remove_earliest_Nil: "fold remove_earliest rems [] = []"
  by (induction rems) (simp_all add: remove_earliest_Nil)

lemma elems_removeElements:
  "wf_slice s \<Longrightarrow> elems (removeElements s rems) = fold remove_earliest rems (elems s)"
  by (simp add: removeElements_def elems_remove_each)
     (simp add: elems_def fold_remove_earliest_Nil)

subsection \<open>Multisets and lengths\<close>

lemma mset_butlast: "ys \<noteq> [] \<Longrightarrow> mset (butlast ys) = mset ys - {#last ys#}"
  by (induction ys) auto

lemma mset_swap_out:
  assumes "i < length xs"
  shows "mset (butlast (xs[i := last xs])) = mset xs - {#xs ! i#}"
proof (cases "i = length xs - 1")
  case True
  from assms have ne: "xs \<noteq> []" by auto
  with True have "xs ! i = last xs" by (simp add: last_conv_nth)
  then have "xs[i := last xs] = xs" by (metis list_update_id)
  with ne \<open>xs ! i = last xs\<close> show ?thesis by (simp add: mset_butlast)
next
  case False
  from assms have ne: "xs[i := last xs] \<noteq> []" by auto
  have l: "last (xs[i := last xs]) = last xs"
  proof -
    from assms have "xs \<noteq> []" by auto
    then show ?thesis using False by (simp add: last_list_update)
  qed
  have "mset (butlast (xs[i := last xs])) = mset (xs[i := last xs]) - {#last xs#}"
    using mset_butlast [OF ne] l by simp
  also have "\<dots> = add_mset (last xs) (mset xs - {#xs ! i#}) - {#last xs#}"
    using assms by (simp add: mset_update)
  finally show ?thesis by simp
qed

lemma mset_remove_earliest: "mset (remove_earliest r xs) = mset xs - {#r#}"
proof (cases "first_index xs r")
  case None
  then have "r \<notin> set xs" by (simp add: first_index_None)
  with None show ?thesis by (simp add: remove_earliest_def)
next
  case (Some i)
  from first_index_Some [OF Some] have "i < length xs" "xs ! i = r" by simp_all
  with Some mset_swap_out [of i xs] show ?thesis
    by (simp add: remove_earliest_def)
qed

lemma mset_fold_remove_earliest:
  "mset (fold remove_earliest rems xs) = mset xs - mset rems"
  by (induction rems arbitrary: xs) (simp_all add: mset_remove_earliest)

lemma length_remove_earliest:
  "length (remove_earliest r xs) + (if r \<in> set xs then 1 else 0) = length xs"
proof (cases "first_index xs r")
  case None
  then have "r \<notin> set xs" by (simp add: first_index_None)
  with None show ?thesis by (simp add: remove_earliest_def)
next
  case (Some i)
  from first_index_Some [OF Some] have "i < length xs" "xs ! i = r" by simp_all
  then have "r \<in> set xs" "xs \<noteq> []" by auto
  with Some show ?thesis by (simp add: remove_earliest_def)
qed

lemma length_remove_each:
  "wf_slice s \<Longrightarrow>
   length (elems (remove_each s rems)) + matched_removals s rems = length (elems s)"
proof (induction rems arbitrary: s)
  case Nil
  then show ?case by simp
next
  case (Cons r rems)
  have "length (elems (remove_each (remove_scan s r 0) rems))
          + matched_removals (remove_scan s r 0) rems
        = length (remove_earliest r (elems s))"
    using Cons.IH [OF wf_remove_scan [OF Cons.prems]] Cons.prems
    by (simp add: elems_remove_scan)
  with length_remove_earliest [of r "elems s"] show ?case by simp
qed

lemma matched_removals_empty: "len s = 0 \<Longrightarrow> matched_removals s rems = 0"
proof (induction rems arbitrary: s)
  case Nil
  then show ?case by simp
next
  case (Cons r rems)
  have "remove_scan s r 0 = s"
    using Cons.prems by (subst remove_scan.simps) simp
  with Cons show ?case by (simp add: elems_def)
qed

lemma length_removeElements:
  "wf_slice s \<Longrightarrow>
   length (elems (removeElements s rems)) + matched_removals s rems = length (elems s)"
  by (simp add: removeElements_def length_remove_each matched_removals_empty)

lemma matched_removals_size:
  "wf_slice s \<Longrightarrow> matched_removals s rems = size (mset (elems s) \<inter># mset rems)"
proof -
  assume wf: "wf_slice s"
  have "size (mset (elems (removeElements s rems))) = size (mset (elems s) - mset rems)"
    using wf by (simp only: elems_removeElements mset_fold_remove_earliest)
  moreover have "size (mset (elems s) - mset rems) + size (mset (elems s) \<inter># mset rems)
                 = size (mset (elems s))"
    by (metis diff_intersect_left_idem inter_subset_eq_union size_Diff_submset  add.commute le_add_diff_inverse size_mset_mono subset_mset.inf_le1)
  ultimately show ?thesis
    using length_removeElements [OF wf, of rems] by simp
qed

subsection \<open>The claims about \<open>removeElements\<close>\<close>

text \<open>
  Claim C9. Every entry of the removal list removes the matching occurrence with the least
  index in the slice as it stands when the entry is reached, that is after the removals and
  the swaps with the last element made for the entries before it, and the entries are taken
  in the order of the removal list. The elements of the result are the fold of
  \<open>remove_earliest\<close> over the removal list; \<open>remove_earliest\<close> leaves a list without a
  match alone and otherwise overwrites the first match with the last element and drops the
  last cell.
\<close>

theorem removeElements_earliest_in_order:
  assumes "wf_slice s"
  shows "elems (removeElements s rems) = fold remove_earliest rems (elems s)
       \<and> (\<forall>r xs. r \<notin> set xs \<longrightarrow> remove_earliest r xs = xs)
       \<and> (\<forall>r xs. r \<in> set xs \<longrightarrow>
            (\<exists>i<length xs. xs ! i = r \<and> (\<forall>j<i. xs ! j \<noteq> r)
                \<and> remove_earliest r xs = butlast (xs[i := last xs])))"
proof (intro conjI allI impI)
  show "elems (removeElements s rems) = fold remove_earliest rems (elems s)"
    using assms by (rule elems_removeElements)
next
  fix r :: string and xs :: "string list"
  assume "r \<notin> set xs"
  then have "first_index xs r = None" by (simp add: first_index_None)
  then show "remove_earliest r xs = xs" by (simp add: remove_earliest_def)
next
  fix r :: string and xs :: "string list"
  assume "r \<in> set xs"
  then obtain i where i: "first_index xs r = Some i"
    using first_index_None [of xs r] by (cases "first_index xs r") auto
  from first_index_Some [OF i]
  have "i < length xs" "xs ! i = r" "\<forall>j<i. xs ! j \<noteq> r" by simp_all
  moreover have "remove_earliest r xs = butlast (xs[i := last xs])"
    using i by (simp add: remove_earliest_def)
  ultimately show "\<exists>i<length xs. xs ! i = r \<and> (\<forall>j<i. xs ! j \<noteq> r)
                \<and> remove_earliest r xs = butlast (xs[i := last xs])"
    by blast
qed

theorem removeElements_earliest_in_order_witness:
  "wf_slice (slice_of [''a'', ''b'', ''a'', ''c''])
   \<and> elems (removeElements (slice_of [''a'', ''b'', ''a'', ''c'']) [''a'', ''x'', ''a''])
     = fold remove_earliest [''a'', ''x'', ''a''] [''a'', ''b'', ''a'', ''c'']
   \<and> fold remove_earliest [''a'', ''x'', ''a''] [''a'', ''b'', ''a'', ''c''] = [''c'', ''b'']
   \<and> remove_earliest ''x'' [''c'', ''b'', ''a''] = [''c'', ''b'', ''a'']
   \<and> remove_earliest ''a'' [''a'', ''b'', ''a'', ''c''] = [''c'', ''b'', ''a'']"
proof -
  have wf: "wf_slice (slice_of [''a'', ''b'', ''a'', ''c''])"
    by (simp add: wf_slice_def slice_of_def)
  have el: "elems (slice_of [''a'', ''b'', ''a'', ''c'']) = [''a'', ''b'', ''a'', ''c'']"
    by (simp add: slice_of_def elems_def)
  note t = removeElements_earliest_in_order [OF wf, of "[''a'', ''x'', ''a'']"]
  have "fold remove_earliest [''a'', ''x'', ''a''] [''a'', ''b'', ''a'', ''c''] = [''c'', ''b'']"
    by (simp add: remove_earliest_def)
  moreover have "remove_earliest ''a'' [''a'', ''b'', ''a'', ''c''] = [''c'', ''b'', ''a'']"
    by (simp add: remove_earliest_def)
  moreover from t have "remove_earliest ''x'' [''c'', ''b'', ''a''] = [''c'', ''b'', ''a'']"
    by simp
  ultimately show ?thesis using wf t unfolding el by simp
qed

text \<open>
  Claim C3, in the form that holds. Every entry of the removal list removes at most one
  occurrence equal to it, so that as multisets the result is the slice minus the removal
  list; the length of the result is the length of the slice minus the number of matched
  removals, which is the size of the multiset intersection; and an identifier is left in
  the result exactly when the slice holds it more often than the removal list does.
\<close>

theorem removeElements_multiset:
  assumes "wf_slice s"
  shows "mset (elems (removeElements s rems)) = mset (elems s) - mset rems
       \<and> length (elems (removeElements s rems)) + matched_removals s rems = length (elems s)
       \<and> matched_removals s rems = size (mset (elems s) \<inter># mset rems)
       \<and> (\<forall>x. x \<in> set (elems (removeElements s rems))
               \<longleftrightarrow> count_list rems x < count_list (elems s) x)"
proof (intro conjI allI)
  show m: "mset (elems (removeElements s rems)) = mset (elems s) - mset rems"
    using assms by (simp only: elems_removeElements mset_fold_remove_earliest)
  show "length (elems (removeElements s rems)) + matched_removals s rems = length (elems s)"
    using assms by (rule length_removeElements)
  show "matched_removals s rems = size (mset (elems s) \<inter># mset rems)"
    using assms by (rule matched_removals_size)
  fix x
  have "x \<in> set (elems (removeElements s rems))
        \<longleftrightarrow> 0 < count (mset (elems (removeElements s rems))) x"
    by (simp only: count_greater_zero_iff set_mset_mset)
  also have "\<dots> \<longleftrightarrow> count (mset rems) x < count (mset (elems s)) x"
    by (simp add: m)
  finally show "x \<in> set (elems (removeElements s rems))
        \<longleftrightarrow> count_list rems x < count_list (elems s) x"
    by (simp add: count_mset)
qed

theorem removeElements_multiset_witness:
  "wf_slice (slice_of [''a'', ''b'', ''a'', ''c''])
   \<and> elems (removeElements (slice_of [''a'', ''b'', ''a'', ''c'']) [''a'', ''x'']) = [''c'', ''b'', ''a'']
   \<and> mset [''c'', ''b'', ''a''] = mset [''a'', ''b'', ''a'', ''c''] - mset [''a'', ''x'']
   \<and> matched_removals (slice_of [''a'', ''b'', ''a'', ''c'']) [''a'', ''x''] = 1
   \<and> ''a'' \<in> set (elems (removeElements (slice_of [''a'', ''b'', ''a'', ''c'']) [''a'', ''x'']))"
proof -
  have wf: "wf_slice (slice_of [''a'', ''b'', ''a'', ''c''])"
    by (simp add: wf_slice_def slice_of_def)
  have ev: "elems (removeElements (slice_of [''a'', ''b'', ''a'', ''c'']) [''a'', ''x''])
            = [''c'', ''b'', ''a'']"
    by (simp add: removeElements_def slice_of_def remove_scan.simps elems_def)
  have el: "elems (slice_of [''a'', ''b'', ''a'', ''c'']) = [''a'', ''b'', ''a'', ''c'']"
    by (simp add: slice_of_def elems_def)
  note t = removeElements_multiset [OF wf, of "[''a'', ''x'']"]
  from t have "mset [''c'', ''b'', ''a''] = mset [''a'', ''b'', ''a'', ''c''] - mset [''a'', ''x'']"
    unfolding ev el by blast
  moreover from t have "matched_removals (slice_of [''a'', ''b'', ''a'', ''c'']) [''a'', ''x''] = 1"
    unfolding ev el by simp
  moreover from t have "''a'' \<in> set (elems (removeElements (slice_of [''a'', ''b'', ''a'', ''c'']) [''a'', ''x'']))"
    unfolding el by simp
  ultimately show ?thesis using wf ev by simp
qed

text \<open>
  Read on values, the sentence "no element remaining in the result is a member of the
  removal list that had a corresponding occurrence in the current list" fails when the
  current list repeats an identifier: removing \<open>a\<close> once from \<open>[a, a]\<close> leaves \<open>[a]\<close>.
\<close>

theorem removeElements_duplicate_counterexample:
  "elems (removeElements (slice_of [''a'', ''a'']) [''a'']) = [''a'']
   \<and> ''a'' \<in> set (elems (removeElements (slice_of [''a'', ''a'']) [''a'']))
   \<and> ''a'' \<in> set [''a'']
   \<and> ''a'' \<in> set (elems (slice_of [''a'', ''a'']))"
  by (simp add: removeElements_def slice_of_def remove_scan.simps elems_def)

text \<open>
  Claim C8. On a slice of length zero \<open>removeElements\<close> returns the slice it was given,
  whatever the removal list: the result has no elements, the backing array is not written,
  and there is no error to return.
\<close>

theorem removeElements_empty:
  "len s = 0 \<Longrightarrow> removeElements s rems = s \<and> elems (removeElements s rems) = []"
  by (simp add: removeElements_def elems_def)

theorem removeElements_empty_witness:
  "len \<lparr>backing = [''z''], len = 0\<rparr> = 0
   \<and> removeElements \<lparr>backing = [''z''], len = 0\<rparr> [''z'', ''y''] = \<lparr>backing = [''z''], len = 0\<rparr>
   \<and> elems (removeElements \<lparr>backing = [''z''], len = 0\<rparr> [''z'', ''y'']) = []"
proof -
  have h: "len \<lparr>backing = [''z''], len = 0\<rparr> = 0" by simp
  from removeElements_empty [OF h, of "[''z'', ''y'']"] h show ?thesis by blast
qed

section \<open>Properties of \<open>readNebulaRoots\<close>\<close>

subsection \<open>The decoding loop and the encoding loop\<close>

lemma read_loop_decodes:
  "decodes_to env b crts \<Longrightarrow>
   read_loop env rootFile b acc = Some (Inr (acc @ filter is_ca crts))"
proof (induction crts arbitrary: b acc)
  case Nil
  then show ?case by (subst read_loop.simps) simp
next
  case (Cons crt crts)
  from Cons.prems obtain b' where ne: "b \<noteq> []"
      and u: "UnmarshalNebulaCertificateFromPEM env b = Inr (crt, b')"
      and rest: "decodes_to env b' crts"
    by (auto split: sum.splits)
  have "read_loop env rootFile b acc =
        read_loop env rootFile b' (if IsCA (Details crt) then acc @ [crt] else acc)"
    using ne u by (subst read_loop.simps) simp
  also have "\<dots> = Some (Inr ((if IsCA (Details crt) then acc @ [crt] else acc) @ filter is_ca crts))"
    using rest by (rule Cons.IH)
  finally show ?case
    by (cases "IsCA (Details crt)") (simp_all add: is_ca_def [of crt])
qed

lemma read_loop_fails:
  "decode_fails_after env b crts err \<Longrightarrow>
   read_loop env rootFile b acc = Some (Inl (Wrapped (''error reading '' @ rootFile) err))"
proof (induction crts arbitrary: b acc)
  case Nil
  then show ?case by (subst read_loop.simps) simp
next
  case (Cons crt crts)
  from Cons.prems obtain b' where ne: "b \<noteq> []"
      and u: "UnmarshalNebulaCertificateFromPEM env b = Inr (crt, b')"
      and rest: "decode_fails_after env b' crts err"
    by (auto split: sum.splits)
  have "read_loop env rootFile b acc =
        read_loop env rootFile b' (if IsCA (Details crt) then acc @ [crt] else acc)"
    using ne u by (subst read_loop.simps) simp
  then show ?case by (simp only: Cons.IH [OF rest])
qed

lemma marshal_loop_encode_from:
  "i \<le> length certs \<Longrightarrow> length rootBytes = length certs \<Longrightarrow>
   marshal_loop env certs i rootBytes =
     (case encode_all env (drop i certs) of
        Inl e \<Rightarrow> Inl e
      | Inr bs \<Rightarrow> Inr (take i rootBytes @ bs))"
proof (induction env certs i rootBytes rule: marshal_loop.induct)
  case (1 env certs i rootBytes)
  show ?case
  proof (cases "i < length certs")
    case False
    with "1.prems" show ?thesis by (subst marshal_loop.simps) simp
  next
    case True
    then have d: "drop i certs = certs ! i # drop (Suc i) certs"
      by (simp add: Cons_nth_drop_Suc)
    show ?thesis
    proof (cases "MarshalToPEM env (certs ! i)")
      case (Inl err)
      with True d show ?thesis by (subst marshal_loop.simps) simp
    next
      case (Inr p)
      have t: "take (Suc i) (rootBytes[i := p]) = take i rootBytes @ [p]"
        using True "1.prems"(2) by (simp add: take_Suc_conv_app_nth)
      have "marshal_loop env certs i rootBytes = marshal_loop env certs (i + 1) (rootBytes[i := p])"
        using True Inr by (subst marshal_loop.simps) simp
      also have "\<dots> = (case encode_all env (drop (i + 1) certs) of
                          Inl e \<Rightarrow> Inl e
                        | Inr bs \<Rightarrow> Inr (take (i + 1) (rootBytes[i := p]) @ bs))"
        using True "1.prems"(2) by (intro "1.IH" [OF True Inr]) simp_all
      finally show ?thesis
        using d Inr t by (simp split: sum.splits)
    qed
  qed
qed

lemma marshal_loop_encode:
  "marshal_loop env certs 0 (replicate (length certs) []) = encode_all env certs"
  by (simp add: marshal_loop_encode_from split: sum.splits)

lemma encode_all_Inr:
  "encode_all env crts = Inr bs \<longleftrightarrow> list_all2 (\<lambda>c p. MarshalToPEM env c = Inr p) crts bs"
proof (induction crts arbitrary: bs)
  case Nil
  show ?case by auto
next
  case (Cons c crts)
  show ?case
    by (cases bs) (auto simp: Cons.IH [symmetric] split: sum.splits)
qed

lemma encode_all_first_failure:
  "\<forall>c \<in> set pre. \<exists>p. MarshalToPEM env c = Inr p \<Longrightarrow> MarshalToPEM env c = Inl err \<Longrightarrow>
   encode_all env (pre @ c # post) = Inl (Wrapped ''error marshaling certificate'' err)"
  by (induction pre) auto

lemma encode_all_Inl:
  "encode_all env crts = Inl e \<Longrightarrow>
   \<exists>c err. c \<in> set crts \<and> MarshalToPEM env c = Inl err
      \<and> e = Wrapped ''error marshaling certificate'' err"
  by (induction crts arbitrary: e) (auto split: sum.splits)

lemma readNebulaRoots_decoded:
  assumes "ReadFile env rootFile = Inr b" and "decodes_to env b crts"
  shows "readNebulaRoots env rootFile =
           Some (if filter is_ca crts = [] then Inl (no_CA_error rootFile)
                 else encode_all env (filter is_ca crts))"
  using assms(1) read_loop_decodes [OF assms(2), of rootFile "[]"]
  by (simp add: readNebulaRoots_def marshal_loop_encode)

lemma readNebulaRoots_not_empty:
  "readNebulaRoots env rootFile \<noteq> Some (Inr [])"
proof
  assume a: "readNebulaRoots env rootFile = Some (Inr [])"
  then obtain b certs where "read_loop env rootFile b [] = Some (Inr certs)"
      and ne: "certs \<noteq> []" and "encode_all env certs = Inr []"
    by (auto simp: readNebulaRoots_def marshal_loop_encode
             split: sum.splits option.splits if_splits)
  then have "list_all2 (\<lambda>c p. MarshalToPEM env c = Inr p) certs []"
    by (simp add: encode_all_Inr)
  with ne show False by simp
qed

lemma all_marshal_list_all2:
  "\<forall>c \<in> set crts. \<exists>p. MarshalToPEM env c = Inr p \<Longrightarrow>
   \<exists>bs. list_all2 (\<lambda>c p. MarshalToPEM env c = Inr p) crts bs"
proof (induction crts)
  case Nil
  show ?case by simp
next
  case (Cons c crts)
  then obtain p bs where "MarshalToPEM env c = Inr p"
      and "list_all2 (\<lambda>c p. MarshalToPEM env c = Inr p) crts bs"
    by auto
  then have "list_all2 (\<lambda>c p. MarshalToPEM env c = Inr p) (c # crts) (p # bs)"
    by simp
  then show ?case ..
qed

lemma readNebulaRoots_decode_failure:
  assumes "ReadFile env rootFile = Inr b" and "decode_fails_after env b crts err"
  shows "readNebulaRoots env rootFile = Some (Inl (Wrapped (''error reading '' @ rootFile) err))"
  using assms(1) read_loop_fails [OF assms(2), of rootFile "[]"]
  by (simp add: readNebulaRoots_def)

text \<open>With a decoder that consumes input the loop ends, and so does the function.\<close>

lemma read_loop_returns:
  assumes consume: "\<forall>b c b'. UnmarshalNebulaCertificateFromPEM env b = Inr (c, b')
                       \<longrightarrow> length b' < length b"
  shows "\<exists>r. read_loop env rootFile b acc = Some r"
proof (induction "length b" arbitrary: b acc rule: less_induct)
  case less
  show ?case
  proof (cases "b = []")
    case True
    then show ?thesis by (subst read_loop.simps) simp
  next
    case False
    show ?thesis
    proof (cases "UnmarshalNebulaCertificateFromPEM env b")
      case (Inl err)
      with False show ?thesis by (subst read_loop.simps) simp
    next
      case (Inr cb)
      obtain c b' where cb: "cb = (c, b')" by (cases cb)
      with Inr consume have "length b' < length b" by blast
      from less [OF this] obtain r where
        "read_loop env rootFile b' (if IsCA (Details c) then acc @ [c] else acc) = Some r"
        by blast
      with False Inr cb show ?thesis by (subst read_loop.simps) simp
    qed
  qed
qed

lemma readNebulaRoots_returns:
  assumes "\<forall>b c b'. UnmarshalNebulaCertificateFromPEM env b = Inr (c, b')
             \<longrightarrow> length b' < length b"
  shows "\<exists>r. readNebulaRoots env rootFile = Some r"
proof (cases "ReadFile env rootFile")
  case (Inl err)
  then show ?thesis by (simp add: readNebulaRoots_def)
next
  case (Inr b)
  from read_loop_returns [OF assms] obtain r where
    "read_loop env rootFile b [] = Some r" by blast
  with Inr show ?thesis
    by (cases r) (simp_all add: readNebulaRoots_def)
qed

text \<open>
  With such a decoder every buffer falls under one of the two predicates: it decodes
  completely, or the decoder fails after some blocks.
\<close>

lemma decode_dichotomy:
  assumes consume: "\<forall>b c b'. UnmarshalNebulaCertificateFromPEM env b = Inr (c, b')
                       \<longrightarrow> length b' < length b"
  shows "(\<exists>crts. decodes_to env b crts) \<or> (\<exists>crts err. decode_fails_after env b crts err)"
proof (induction "length b" arbitrary: b rule: less_induct)
  case less
  show ?case
  proof (cases "b = []")
    case True
    then have "decodes_to env b []" by simp
    then show ?thesis by blast
  next
    case False
    show ?thesis
    proof (cases "UnmarshalNebulaCertificateFromPEM env b")
      case (Inl err)
      with False have "decode_fails_after env b [] err" by simp
      then show ?thesis by blast
    next
      case (Inr cb)
      obtain c b' where cb: "cb = (c, b')" by (cases cb)
      with Inr consume have "length b' < length b" by blast
      from less [OF this] show ?thesis
      proof
        assume "\<exists>crts. decodes_to env b' crts"
        then obtain crts where "decodes_to env b' crts" ..
        with False Inr cb have "decodes_to env b (c # crts)" by simp
        then show ?thesis by blast
      next
        assume "\<exists>crts err. decode_fails_after env b' crts err"
        then obtain crts err where "decode_fails_after env b' crts err" by blast
        with False Inr cb have "decode_fails_after env b (c # crts) err" by simp
        then show ?thesis by blast
      qed
    qed
  qed
qed

lemma example_decodes_CaLbCc:
  "decodes_to (example_nebula_env s) ''CaLbCc''
     [example_cert CHR ''a'' True, example_cert CHR ''b'' False, example_cert CHR ''c'' True]"
  by (simp add: example_nebula_env_def)

subsection \<open>The claims about \<open>readNebulaRoots\<close>\<close>

text \<open>
  Claim C2. When the buffer of the file decodes completely into the certificates \<open>crts\<close>,
  the outcome of \<open>readNebulaRoots\<close> is fixed by the certificates of \<open>crts\<close> that are
  authorities, in their order in the file: the no-authority error when there is none, and
  otherwise their re-encoding. When each of them encodes, the function returns the list of
  their PEM forms, one per authority and in the same order; and when an encoded authority
  decodes back to itself, every returned blob decodes to a certificate that is an authority.
  Collecting every certificate and filtering afterwards, as the description does, and
  filtering inside the loop, as the code does, give the same list.
\<close>

theorem readNebulaRoots_CA_roots:
  assumes rd: "ReadFile env rootFile = Inr b" and dec: "decodes_to env b crts"
  shows "readNebulaRoots env rootFile =
           Some (if filter is_ca crts = [] then Inl (no_CA_error rootFile)
                 else encode_all env (filter is_ca crts))
       \<and> (filter is_ca crts \<noteq> [] \<and> (\<forall>c \<in> set (filter is_ca crts). \<exists>p. MarshalToPEM env c = Inr p)
            \<longrightarrow> (\<exists>roots. readNebulaRoots env rootFile = Some (Inr roots)
                   \<and> list_all2 (\<lambda>c p. MarshalToPEM env c = Inr p) (filter is_ca crts) roots
                   \<and> length roots = length (filter is_ca crts)
                   \<and> ((\<forall>c \<in> set (filter is_ca crts). \<forall>p. MarshalToPEM env c = Inr p \<longrightarrow>
                          (\<exists>rest. UnmarshalNebulaCertificateFromPEM env p = Inr (c, rest)))
                        \<longrightarrow> (\<forall>p \<in> set roots. \<exists>c rest.
                               UnmarshalNebulaCertificateFromPEM env p = Inr (c, rest)
                               \<and> IsCA (Details c)))))"
proof (intro conjI impI)
  show eq: "readNebulaRoots env rootFile =
           Some (if filter is_ca crts = [] then Inl (no_CA_error rootFile)
                 else encode_all env (filter is_ca crts))"
    using rd dec by (rule readNebulaRoots_decoded)
  assume a: "filter is_ca crts \<noteq> [] \<and> (\<forall>c \<in> set (filter is_ca crts). \<exists>p. MarshalToPEM env c = Inr p)"
  then obtain roots where
    l: "list_all2 (\<lambda>c p. MarshalToPEM env c = Inr p) (filter is_ca crts) roots"
    using all_marshal_list_all2 [of "filter is_ca crts" env] by blast
  then have enc: "encode_all env (filter is_ca crts) = Inr roots"
    by (simp add: encode_all_Inr)
  have r: "readNebulaRoots env rootFile = Some (Inr roots)"
    using eq a enc by simp
  have len: "length roots = length (filter is_ca crts)"
    using l by (simp add: list_all2_lengthD)
  have redec: "\<forall>p \<in> set roots. \<exists>c rest.
                UnmarshalNebulaCertificateFromPEM env p = Inr (c, rest) \<and> IsCA (Details c)"
    if rt: "\<forall>c \<in> set (filter is_ca crts). \<forall>p. MarshalToPEM env c = Inr p \<longrightarrow>
              (\<exists>rest. UnmarshalNebulaCertificateFromPEM env p = Inr (c, rest))"
  proof
    fix p assume "p \<in> set roots"
    then obtain i where i: "i < length roots" "roots ! i = p"
      by (auto simp: in_set_conv_nth)
    let ?c = "filter is_ca crts ! i"
    have m: "MarshalToPEM env ?c = Inr p"
      using l i by (auto simp: list_all2_conv_all_nth)
    have cin: "?c \<in> set (filter is_ca crts)"
      using i(1) len by (simp only: nth_mem)
    then have "is_ca ?c" by simp
    moreover from rt cin m obtain rest where
      "UnmarshalNebulaCertificateFromPEM env p = Inr (?c, rest)" by blast
    ultimately show "\<exists>c rest. UnmarshalNebulaCertificateFromPEM env p = Inr (c, rest)
                      \<and> IsCA (Details c)"
      by (auto simp: is_ca_def)
  qed
  from r l len redec
  show "\<exists>roots. readNebulaRoots env rootFile = Some (Inr roots)
          \<and> list_all2 (\<lambda>c p. MarshalToPEM env c = Inr p) (filter is_ca crts) roots
          \<and> length roots = length (filter is_ca crts)
          \<and> ((\<forall>c \<in> set (filter is_ca crts). \<forall>p. MarshalToPEM env c = Inr p \<longrightarrow>
                 (\<exists>rest. UnmarshalNebulaCertificateFromPEM env p = Inr (c, rest)))
               \<longrightarrow> (\<forall>p \<in> set roots. \<exists>c rest.
                      UnmarshalNebulaCertificateFromPEM env p = Inr (c, rest)
                      \<and> IsCA (Details c)))"
    by blast
qed

theorem readNebulaRoots_CA_roots_witness:
  "ReadFile (example_nebula_env ''CaLbCc'') ''roots.pem'' = Inr ''CaLbCc''
   \<and> decodes_to (example_nebula_env ''CaLbCc'') ''CaLbCc''
       [example_cert CHR ''a'' True, example_cert CHR ''b'' False, example_cert CHR ''c'' True]
   \<and> readNebulaRoots (example_nebula_env ''CaLbCc'') ''roots.pem'' = Some (Inr [''Ca'', ''Cc''])
   \<and> length [''Ca'', ''Cc''] = (2::nat)
   \<and> example_Unmarshal ''Ca'' = Inr (example_cert CHR ''a'' True, [])
   \<and> example_Unmarshal ''Cc'' = Inr (example_cert CHR ''c'' True, [])
   \<and> IsCA (Details (example_cert CHR ''a'' True))
   \<and> IsCA (Details (example_cert CHR ''c'' True))"
proof -
  have rd: "ReadFile (example_nebula_env ''CaLbCc'') ''roots.pem'' = Inr ''CaLbCc''"
    by (simp add: example_nebula_env_def)
  note dec = example_decodes_CaLbCc [of "''CaLbCc''"]
  have f: "filter is_ca
             [example_cert CHR ''a'' True, example_cert CHR ''b'' False, example_cert CHR ''c'' True]
           = [example_cert CHR ''a'' True, example_cert CHR ''c'' True]"
    by (simp add: is_ca_def example_cert_def)
  have e: "encode_all (example_nebula_env ''CaLbCc'')
             [example_cert CHR ''a'' True, example_cert CHR ''c'' True] = Inr [''Ca'', ''Cc'']"
    by (simp add: example_nebula_env_def example_Marshal_def example_cert_def)
  from readNebulaRoots_CA_roots [OF rd dec]
  have "readNebulaRoots (example_nebula_env ''CaLbCc'') ''roots.pem'' = Some (Inr [''Ca'', ''Cc''])"
    unfolding f e by simp
  then show ?thesis
    using rd dec by (simp add: example_cert_def)
qed

text \<open>
  Claim C4. When the decoder fails on a block, after any number of blocks that decoded,
  \<open>readNebulaRoots\<close> returns the error that wraps the decoder's error under the message
  "error reading" followed by the path, and no list of certificates.
\<close>

theorem readNebulaRoots_aborts_on_bad_block:
  assumes "ReadFile env rootFile = Inr b" and "decode_fails_after env b crts err"
  shows "readNebulaRoots env rootFile = Some (Inl (Wrapped (''error reading '' @ rootFile) err))
       \<and> Unwrap (Wrapped (''error reading '' @ rootFile) err) = Some err
       \<and> (\<forall>roots. readNebulaRoots env rootFile \<noteq> Some (Inr roots))"
  using readNebulaRoots_decode_failure [OF assms] by simp

theorem readNebulaRoots_aborts_on_bad_block_witness:
  "ReadFile (example_nebula_env ''CaLbC'') ''roots.pem'' = Inr ''CaLbC''
   \<and> decode_fails_after (example_nebula_env ''CaLbC'') ''CaLbC''
        [example_cert CHR ''a'' True, example_cert CHR ''b'' False] bad_block
   \<and> readNebulaRoots (example_nebula_env ''CaLbC'') ''roots.pem''
       = Some (Inl (Wrapped ''error reading roots.pem'' bad_block))"
proof -
  have rd: "ReadFile (example_nebula_env ''CaLbC'') ''roots.pem'' = Inr ''CaLbC''"
    by (simp add: example_nebula_env_def)
  have f: "decode_fails_after (example_nebula_env ''CaLbC'') ''CaLbC''
        [example_cert CHR ''a'' True, example_cert CHR ''b'' False] bad_block"
    by (simp add: example_nebula_env_def)
  from readNebulaRoots_aborts_on_bad_block [OF rd f] rd f show ?thesis by simp
qed

text \<open>
  Claim C5. When the buffer decodes completely and none of its certificates is an
  authority, \<open>readNebulaRoots\<close> fails with the error "error reading", the path,
  ": no CA certificates found". No file at all makes it return the empty list.
\<close>

theorem readNebulaRoots_no_CA:
  assumes "ReadFile env rootFile = Inr b" and "decodes_to env b crts"
      and "\<forall>c \<in> set crts. \<not> IsCA (Details c)"
  shows "readNebulaRoots env rootFile
           = Some (Inl (ErrorString (''error reading '' @ rootFile @ '': no CA certificates found'')))
       \<and> (\<forall>env' rootFile'. readNebulaRoots env' rootFile' \<noteq> Some (Inr []))"
proof
  have "filter is_ca crts = []"
    using assms(3) by (simp add: is_ca_def filter_empty_conv)
  with readNebulaRoots_decoded [OF assms(1,2)]
  show "readNebulaRoots env rootFile
           = Some (Inl (ErrorString (''error reading '' @ rootFile @ '': no CA certificates found'')))"
    by (simp add: no_CA_error_def)
  show "\<forall>env' rootFile'. readNebulaRoots env' rootFile' \<noteq> Some (Inr [])"
    by (simp add: readNebulaRoots_not_empty)
qed

theorem readNebulaRoots_no_CA_witness:
  "ReadFile (example_nebula_env ''LaLb'') ''leaves.pem'' = Inr ''LaLb''
   \<and> decodes_to (example_nebula_env ''LaLb'') ''LaLb''
        [example_cert CHR ''a'' False, example_cert CHR ''b'' False]
   \<and> \<not> IsCA (Details (example_cert CHR ''a'' False))
   \<and> \<not> IsCA (Details (example_cert CHR ''b'' False))
   \<and> readNebulaRoots (example_nebula_env ''LaLb'') ''leaves.pem''
       = Some (Inl (ErrorString ''error reading leaves.pem: no CA certificates found''))"
proof -
  have rd: "ReadFile (example_nebula_env ''LaLb'') ''leaves.pem'' = Inr ''LaLb''"
    by (simp add: example_nebula_env_def)
  have d: "decodes_to (example_nebula_env ''LaLb'') ''LaLb''
        [example_cert CHR ''a'' False, example_cert CHR ''b'' False]"
    by (simp add: example_nebula_env_def)
  have n: "\<forall>c \<in> set [example_cert CHR ''a'' False, example_cert CHR ''b'' False].
             \<not> IsCA (Details c)"
    by (simp add: example_cert_def)
  from readNebulaRoots_no_CA [OF rd d n] rd d n show ?thesis by simp
qed

text \<open>
  Claim C10. When the buffer decodes completely and some authority among its certificates
  cannot be encoded, \<open>readNebulaRoots\<close> returns an error that wraps an encoding error
  under the message "error marshaling certificate", and no list; the error wrapped is that
  of the first authority that fails, also when authorities before it were encoded.
\<close>

theorem readNebulaRoots_marshal_failure:
  assumes "ReadFile env rootFile = Inr b" and "decodes_to env b crts"
      and "c \<in> set (filter is_ca crts)" and "MarshalToPEM env c = Inl err0"
  shows "(\<exists>c' err. c' \<in> set (filter is_ca crts) \<and> MarshalToPEM env c' = Inl err
            \<and> readNebulaRoots env rootFile
                = Some (Inl (Wrapped ''error marshaling certificate'' err)))
       \<and> (\<forall>pre post. filter is_ca crts = pre @ c # post
              \<and> (\<forall>x \<in> set pre. \<exists>p. MarshalToPEM env x = Inr p)
            \<longrightarrow> readNebulaRoots env rootFile
                  = Some (Inl (Wrapped ''error marshaling certificate'' err0)))
       \<and> (\<forall>roots. readNebulaRoots env rootFile \<noteq> Some (Inr roots))"
proof -
  from assms(3) have ne: "filter is_ca crts \<noteq> []"
    by (metis empty_iff list.set(1))
  with readNebulaRoots_decoded [OF assms(1,2)]
  have eq: "readNebulaRoots env rootFile = Some (encode_all env (filter is_ca crts))"
    by simp
  have notInr: "encode_all env (filter is_ca crts) \<noteq> Inr bs" for bs
  proof
    assume "encode_all env (filter is_ca crts) = Inr bs"
    then have l: "list_all2 (\<lambda>c p. MarshalToPEM env c = Inr p) (filter is_ca crts) bs"
      by (simp add: encode_all_Inr)
    from assms(3) obtain i where "i < length (filter is_ca crts)" "filter is_ca crts ! i = c"
      by (metis in_set_conv_nth)
    with l have "MarshalToPEM env c = Inr (bs ! i)"
      by (auto simp: list_all2_conv_all_nth)
    with assms(4) show False by simp
  qed
  then obtain e where e: "encode_all env (filter is_ca crts) = Inl e"
    by (cases "encode_all env (filter is_ca crts)") auto
  from encode_all_Inl [OF e] obtain c' err where
    "c' \<in> set (filter is_ca crts)" "MarshalToPEM env c' = Inl err"
    "e = Wrapped ''error marshaling certificate'' err"
    by blast
  with eq e have first: "\<exists>c' err. c' \<in> set (filter is_ca crts) \<and> MarshalToPEM env c' = Inl err
            \<and> readNebulaRoots env rootFile
                = Some (Inl (Wrapped ''error marshaling certificate'' err))"
    by auto
  have second: "\<forall>pre post. filter is_ca crts = pre @ c # post
              \<and> (\<forall>x \<in> set pre. \<exists>p. MarshalToPEM env x = Inr p)
            \<longrightarrow> readNebulaRoots env rootFile
                  = Some (Inl (Wrapped ''error marshaling certificate'' err0))"
    using eq assms(4) by (auto simp: encode_all_first_failure)
  have third: "\<forall>roots. readNebulaRoots env rootFile \<noteq> Some (Inr roots)"
    using eq e by simp
  from first second third show ?thesis by blast
qed

theorem readNebulaRoots_marshal_failure_witness:
  "ReadFile (example_nebula_env ''CaC!Cc'') ''roots.pem'' = Inr ''CaC!Cc''
   \<and> decodes_to (example_nebula_env ''CaC!Cc'') ''CaC!Cc''
        [example_cert CHR ''a'' True, example_cert CHR ''!'' True, example_cert CHR ''c'' True]
   \<and> MarshalToPEM (example_nebula_env ''CaC!Cc'') (example_cert CHR ''a'' True) = Inr ''Ca''
   \<and> MarshalToPEM (example_nebula_env ''CaC!Cc'') (example_cert CHR ''!'' True)
       = Inl (ErrorString ''cannot marshal'')
   \<and> readNebulaRoots (example_nebula_env ''CaC!Cc'') ''roots.pem''
       = Some (Inl (Wrapped ''error marshaling certificate'' (ErrorString ''cannot marshal'')))"
proof -
  let ?env = "example_nebula_env ''CaC!Cc''"
  let ?a = "example_cert CHR ''a'' True" and ?x = "example_cert CHR ''!'' True"
  let ?c = "example_cert CHR ''c'' True"
  have rd: "ReadFile ?env ''roots.pem'' = Inr ''CaC!Cc''"
    by (simp add: example_nebula_env_def)
  have d: "decodes_to ?env ''CaC!Cc'' [?a, ?x, ?c]"
    by (simp add: example_nebula_env_def)
  have f: "filter is_ca [?a, ?x, ?c] = [?a] @ ?x # [?c]"
    by (simp add: is_ca_def example_cert_def)
  have mem: "?x \<in> set (filter is_ca [?a, ?x, ?c])"
    unfolding f by simp
  have ma: "MarshalToPEM ?env ?a = Inr ''Ca''"
    by (simp add: example_nebula_env_def example_Marshal_def example_cert_def)
  have mx: "MarshalToPEM ?env ?x = Inl (ErrorString ''cannot marshal'')"
    by (simp add: example_nebula_env_def example_Marshal_def example_cert_def)
  have pre: "\<forall>x \<in> set [?a]. \<exists>p. MarshalToPEM ?env x = Inr p"
    using ma by simp
  from readNebulaRoots_marshal_failure [OF rd d mem mx] f pre
  have "readNebulaRoots ?env ''roots.pem''
       = Some (Inl (Wrapped ''error marshaling certificate'' (ErrorString ''cannot marshal'')))"
    by blast
  with rd d ma mx show ?thesis by simp
qed

section \<open>Properties of \<open>newCRUDClient\<close>\<close>

lemma touches_admin_simps:
  "touches_admin [] = False"
  "touches_admin (c # cs) = ((case c of CallNewAdminClient x \<Rightarrow> True | _ \<Rightarrow> False) \<or> touches_admin cs)"
  by (simp_all add: touches_admin_def)

text \<open>
  Claim C1. When the configuration file is there and loads, with \<open>enableAdmin\<close> true and a
  static provisioner list that is not empty, \<open>newCRUDClient\<close> fails with the conflict
  error, and the calls it made are \<open>os.Stat\<close> and \<open>LoadConfiguration\<close> only: the
  constructor of the remote administration client is not called.
\<close>

theorem newCRUDClient_enableAdmin_conflict:
  assumes "Stat env configFile = None"
      and "LoadConfiguration env configFile = Inr config"
      and "EnableAdmin (AuthorityConfig config)"
      and "Provisioners (AuthorityConfig config) \<noteq> []"
  shows "newCRUDClient env cliCtx configFile
           = (Inl enableAdmin_conflict, [CallStat configFile, CallLoadConfiguration configFile])
       \<and> \<not> touches_admin (snd (newCRUDClient env cliCtx configFile))"
  using assms
  by (simp add: newCRUDClient_def errors_Is_def touches_admin_simps)

theorem newCRUDClient_enableAdmin_conflict_witness:
  "Stat (example_crud_env None (Inr (example_config True [''jwk-admin'']))) ''ca.json'' = None
   \<and> LoadConfiguration (example_crud_env None (Inr (example_config True [''jwk-admin''])))
        ''ca.json'' = Inr (example_config True [''jwk-admin''])
   \<and> EnableAdmin (AuthorityConfig (example_config True [''jwk-admin'']))
   \<and> Provisioners (AuthorityConfig (example_config True [''jwk-admin''])) \<noteq> []
   \<and> newCRUDClient (example_crud_env None (Inr (example_config True [''jwk-admin''])))
        (CliContext []) ''ca.json''
      = (Inl enableAdmin_conflict, [CallStat ''ca.json'', CallLoadConfiguration ''ca.json''])"
proof -
  let ?cfg = "example_config True [''jwk-admin'']"
  let ?env = "example_crud_env None (Inr ?cfg)"
  have s: "Stat ?env ''ca.json'' = None"
    by (simp add: example_crud_env_def)
  have l: "LoadConfiguration ?env ''ca.json'' = Inr ?cfg"
    by (simp add: example_crud_env_def)
  have e: "EnableAdmin (AuthorityConfig ?cfg)"
    by (simp add: example_config_def)
  have p: "Provisioners (AuthorityConfig ?cfg) \<noteq> []"
    by (simp add: example_config_def)
  from newCRUDClient_enableAdmin_conflict [OF s l e p, of "CliContext []"] s l e p
  show ?thesis by blast
qed

text \<open>
  Claim C6. \<open>newCRUDClient\<close> hands back what \<open>NewAdminClient\<close> builds from the command
  line context when the configuration file does not exist, and also when the file loads
  with \<open>enableAdmin\<close> true and an empty static provisioner list; when the file loads with
  \<open>enableAdmin\<close> false it hands back what \<open>newAdminAPIDisabledClient\<close> builds from the
  loaded configuration and the path of the file. An error of a constructor is passed on as
  it is.
\<close>

theorem newCRUDClient_selects_store:
  "(errors_Is (Stat env configFile) ErrNotExist \<longrightarrow>
      newCRUDClient env cliCtx configFile
        = (map_sum id AdminClient (NewAdminClient env cliCtx),
           [CallStat configFile, CallNewAdminClient cliCtx]))
   \<and> (Stat env configFile = None \<and> LoadConfiguration env configFile = Inr config
        \<and> EnableAdmin (AuthorityConfig config) \<and> Provisioners (AuthorityConfig config) = [] \<longrightarrow>
      newCRUDClient env cliCtx configFile
        = (map_sum id AdminClient (NewAdminClient env cliCtx),
           [CallStat configFile, CallLoadConfiguration configFile, CallNewAdminClient cliCtx]))
   \<and> (Stat env configFile = None \<and> LoadConfiguration env configFile = Inr config
        \<and> \<not> EnableAdmin (AuthorityConfig config) \<longrightarrow>
      newCRUDClient env cliCtx configFile
        = (map_sum id AdminAPIDisabledClient
             (newAdminAPIDisabledClient env Background config configFile),
           [CallStat configFile, CallLoadConfiguration configFile,
            CallNewAdminAPIDisabledClient Background config configFile]))"
  by (simp add: newCRUDClient_def errors_Is_def)

theorem newCRUDClient_selects_store_witness:
  "errors_Is (Stat (example_crud_env (Some (Wrapped ''stat ca.json'' ErrNotExist))
                      (Inl (ErrorString ''unused''))) ''ca.json'') ErrNotExist
   \<and> newCRUDClient (example_crud_env (Some (Wrapped ''stat ca.json'' ErrNotExist))
                      (Inl (ErrorString ''unused''))) (CliContext []) ''ca.json''
      = (Inr (AdminClient (CliContext [])), [CallStat ''ca.json'', CallNewAdminClient (CliContext [])])
   \<and> newCRUDClient (example_crud_env None (Inr (example_config True []))) (CliContext []) ''ca.json''
      = (Inr (AdminClient (CliContext [])),
         [CallStat ''ca.json'', CallLoadConfiguration ''ca.json'', CallNewAdminClient (CliContext [])])
   \<and> newCRUDClient (example_crud_env None (Inr (example_config False [''jwk'']))) (CliContext [])
        ''ca.json''
      = (Inr (AdminAPIDisabledClient (example_config False [''jwk''], ''ca.json'')),
         [CallStat ''ca.json'', CallLoadConfiguration ''ca.json'',
          CallNewAdminAPIDisabledClient Background (example_config False [''jwk'']) ''ca.json''])"
proof -
  let ?absent = "example_crud_env (Some (Wrapped ''stat ca.json'' ErrNotExist))
                   (Inl (ErrorString ''unused''))"
  let ?on = "example_crud_env None (Inr (example_config True []))"
  let ?off = "example_crud_env None (Inr (example_config False [''jwk'']))"
  have a: "errors_Is (Stat ?absent ''ca.json'') ErrNotExist"
    by (simp add: example_crud_env_def errors_Is_def ErrNotExist_def)
  have b: "Stat ?on ''ca.json'' = None \<and> LoadConfiguration ?on ''ca.json'' = Inr (example_config True [])
           \<and> EnableAdmin (AuthorityConfig (example_config True []))
           \<and> Provisioners (AuthorityConfig (example_config True [])) = []"
    by (simp add: example_crud_env_def example_config_def)
  have c: "Stat ?off ''ca.json'' = None
           \<and> LoadConfiguration ?off ''ca.json'' = Inr (example_config False [''jwk''])
           \<and> \<not> EnableAdmin (AuthorityConfig (example_config False [''jwk'']))"
    by (simp add: example_crud_env_def example_config_def)
  have "newCRUDClient ?absent (CliContext []) ''ca.json''
      = (Inr (AdminClient (CliContext [])), [CallStat ''ca.json'', CallNewAdminClient (CliContext [])])"
    using newCRUDClient_selects_store [of ?absent "''ca.json''" "CliContext []"] a
    by (simp add: example_crud_env_def)
  moreover have "newCRUDClient ?on (CliContext []) ''ca.json''
      = (Inr (AdminClient (CliContext [])),
         [CallStat ''ca.json'', CallLoadConfiguration ''ca.json'', CallNewAdminClient (CliContext [])])"
    using newCRUDClient_selects_store [of ?on "''ca.json''" "CliContext []" "example_config True []"] b
    by (simp add: example_crud_env_def)
  moreover have "newCRUDClient ?off (CliContext []) ''ca.json''
      = (Inr (AdminAPIDisabledClient (example_config False [''jwk''], ''ca.json'')),
         [CallStat ''ca.json'', CallLoadConfiguration ''ca.json'',
          CallNewAdminAPIDisabledClient Background (example_config False [''jwk'']) ''ca.json''])"
    using newCRUDClient_selects_store
            [of ?off "''ca.json''" "CliContext []" "example_config False [''jwk'']"] c
    by (simp add: example_crud_env_def)
  ultimately show ?thesis using a by blast
qed

text \<open>
  Claim C7. When the file is there and does not load, \<open>newCRUDClient\<close> returns the
  loader's error wrapped under "error loading configuration"; when \<open>os.Stat\<close> fails with
  an error that is not a not-exist error, it returns \<open>errs.FileError\<close> of that error and
  the path. In both cases no store is returned and no constructor is called.
\<close>

theorem newCRUDClient_errors:
  "(Stat env configFile = None \<and> LoadConfiguration env configFile = Inl err \<longrightarrow>
      newCRUDClient env cliCtx configFile
        = (Inl (Wrapped ''error loading configuration'' err),
           [CallStat configFile, CallLoadConfiguration configFile]))
   \<and> (Stat env configFile = Some err \<and> \<not> errors_Is (Some err) ErrNotExist \<longrightarrow>
      newCRUDClient env cliCtx configFile
        = (Inl (FileError err configFile), [CallStat configFile]))"
  by (simp add: newCRUDClient_def errors_Is_def)

theorem newCRUDClient_errors_witness:
  "newCRUDClient (example_crud_env None (Inl (ErrorString ''unexpected end of JSON input'')))
      (CliContext []) ''ca.json''
     = (Inl (Wrapped ''error loading configuration'' (ErrorString ''unexpected end of JSON input'')),
        [CallStat ''ca.json'', CallLoadConfiguration ''ca.json''])
   \<and> \<not> errors_Is (Some (Wrapped ''stat ca.json'' (ErrorString ''permission denied''))) ErrNotExist
   \<and> newCRUDClient (example_crud_env (Some (Wrapped ''stat ca.json'' (ErrorString ''permission denied'')))
                      (Inl (ErrorString ''unused''))) (CliContext []) ''ca.json''
     = (Inl (FileError (Wrapped ''stat ca.json'' (ErrorString ''permission denied'')) ''ca.json''),
        [CallStat ''ca.json''])"
proof -
  let ?bad = "example_crud_env None (Inl (ErrorString ''unexpected end of JSON input''))"
  let ?perm = "Wrapped ''stat ca.json'' (ErrorString ''permission denied'')"
  let ?locked = "example_crud_env (Some ?perm) (Inl (ErrorString ''unused''))"
  have a: "Stat ?bad ''ca.json'' = None
           \<and> LoadConfiguration ?bad ''ca.json'' = Inl (ErrorString ''unexpected end of JSON input'')"
    by (simp add: example_crud_env_def)
  have n: "\<not> errors_Is (Some ?perm) ErrNotExist"
    by (simp add: errors_Is_def ErrNotExist_def)
  have b: "Stat ?locked ''ca.json'' = Some ?perm"
    by (simp add: example_crud_env_def)
  have "newCRUDClient ?bad (CliContext []) ''ca.json''
     = (Inl (Wrapped ''error loading configuration'' (ErrorString ''unexpected end of JSON input'')),
        [CallStat ''ca.json'', CallLoadConfiguration ''ca.json''])"
    using newCRUDClient_errors
            [of ?bad "''ca.json''" "ErrorString ''unexpected end of JSON input''" "CliContext []"] a
    by blast
  moreover have "newCRUDClient ?locked (CliContext []) ''ca.json''
     = (Inl (FileError ?perm ''ca.json''), [CallStat ''ca.json''])"
    using newCRUDClient_errors [of ?locked "''ca.json''" ?perm "CliContext []"] b n
    by blast
  ultimately show ?thesis using n by blast
qed

end
